theory Spec2Isabelle
  imports Complex_Main "HOL-Library.Word" "HOL-Library.Sublist"
begin

section \<open>The solar controller: one decision cycle of \<open>SolarController::adjust\<close>\<close>

text \<open>
  The firmware is one function, \<open>SolarController::adjust()\<close>
  (\<open>src/Firmware/SolarController.cpp\<close>, lines 5 to 92). It reads the clock, two limit
  switches and two light sensors, prints one diagnostic line on \<open>Serial\<close> and drives four
  digital outputs: two indicator LEDs and the two motor relays.

  The function is embedded with explicit state passing. Everything it reads from the
  hardware during one call is a field of \<open>inputs\<close>; everything it changes (the output
  pins, the two global switch flags, the serial stream) is a field of \<open>world\<close>, together
  with the history of the calls it makes (\<open>writes\<close>, the read counters). The constants it
  uses and that are declared outside the source file are the fields of \<open>config\<close>.
\<close>

subsection \<open>Outputs\<close>

text \<open>
  Modelled from the spec: the pin constants \<open>LEDB_PIN_VIN\<close>, \<open>LEDY_PIN_VIN\<close> and the array
  \<open>RelayModule4chPins\<close>, which \<open>adjust\<close> uses and which are declared outside the source
  file. The spec's actuator contract has two independent relay outputs and two indicator
  outputs, so they are distinct outputs here. \<open>RelayModule4chPins 0\<close> is the relay the
  spec calls the left one, \<open>RelayModule4chPins 1\<close> the right one.
\<close>

datatype pin = LEDB_PIN_VIN | LEDY_PIN_VIN | RelayModule4chPins nat

abbreviation (input) LOW :: bool where "LOW \<equiv> False"
abbreviation (input) HIGH :: bool where "HIGH \<equiv> True"

text \<open>
  The serial stream. A call \<open>Serial.print\<close> with a string appends its characters; a call
  with a number appends one item that holds the number (how \<open>Print\<close> formats a number is
  the Arduino core's business, not this program's); \<open>println\<close> appends the line
  terminator after its text.
\<close>

datatype out = Ch char | ULong "32 word" | Flag bool | Double real | EOL

record world =
  pins :: "pin \<Rightarrow> bool"
  writes :: "(pin \<times> bool) list"
  serial :: "out list"
  leftSwitchActive :: bool
  rightSwitchActive :: bool
  ldr_1_reads :: nat
  ldr_2_reads :: nat

text \<open>
  What the hardware returns during one call of \<open>adjust\<close>. \<open>ldr_1 k\<close> is the value of the
  \<open>k\<close>-th call of \<open>ldr_1.read()\<close> since start-up, counted from 0 (the raw ADC sample, an
  \<open>int\<close>); \<open>microSwitch_1\<close> is the raw level of the switch input. \<open>isAdjusting\<close> is the
  global flag that \<open>adjust\<close> reads and never writes.
\<close>

record inputs =
  millis :: "32 word"
  microSwitch_1 :: bool
  microSwitch_2 :: bool
  ldr_1 :: "nat \<Rightarrow> int"
  ldr_2 :: "nat \<Rightarrow> int"
  isAdjusting :: bool

text \<open>
  What the build fixes. \<open>left_cal\<close>, \<open>right_cal\<close> and \<open>THRESHOLD_TURN\<close> are the constants
  \<open>adjust\<close> uses and that are declared outside the source file. \<open>double_mul\<close> and
  \<open>double_sub\<close> are the two floating-point operations of \<open>adjust\<close> as the target computes
  them, rounding included: \<open>double_mul r cal\<close> is the value of \<open>read() * cal\<close> at lines 24
  and 27, \<open>double_sub l r\<close> the value of \<open>leftSample - rightSample\<close> at line 30 (a \<open>double\<close>
  has 32 bits on an AVR board and 64 bits on others). A \<open>double\<close> is the real number it
  holds: the ADC samples and the constants are finite, and \<open>abs\<close> and the comparisons are
  exact on such values. Nothing is assumed of the two operations, so the product and the
  difference are whatever the target gives, not the exact product and difference; a
  theorem that needs a property of them states it as a hypothesis.
\<close>

record config =
  left_cal :: real
  right_cal :: real
  THRESHOLD_TURN :: real
  double_mul :: "real \<Rightarrow> real \<Rightarrow> real"
  double_sub :: "real \<Rightarrow> real \<Rightarrow> real"

subsection \<open>The calls \<open>adjust\<close> makes\<close>

definition digitalWrite :: "pin \<Rightarrow> bool \<Rightarrow> world \<Rightarrow> world" where
  "digitalWrite p v w = w\<lparr>pins := (pins w)(p := v), writes := writes w @ [(p, v)]\<rparr>"

definition print_str :: "string \<Rightarrow> world \<Rightarrow> world" where
  "print_str s w = w\<lparr>serial := serial w @ map Ch s\<rparr>"

definition print_ulong :: "32 word \<Rightarrow> world \<Rightarrow> world" where
  "print_ulong n w = w\<lparr>serial := serial w @ [ULong n]\<rparr>"

definition print_flag :: "bool \<Rightarrow> world \<Rightarrow> world" where
  "print_flag b w = w\<lparr>serial := serial w @ [Flag b]\<rparr>"

definition print_double :: "real \<Rightarrow> world \<Rightarrow> world" where
  "print_double x w = w\<lparr>serial := serial w @ [Double x]\<rparr>"

definition println_str :: "string \<Rightarrow> world \<Rightarrow> world" where
  "println_str s w = w\<lparr>serial := serial w @ map Ch s @ [EOL]\<rparr>"

definition ldr_1_read :: "inputs \<Rightarrow> world \<Rightarrow> int \<times> world" where
  "ldr_1_read i w = (ldr_1 i (ldr_1_reads w), w\<lparr>ldr_1_reads := Suc (ldr_1_reads w)\<rparr>)"

definition ldr_2_read :: "inputs \<Rightarrow> world \<Rightarrow> int \<times> world" where
  "ldr_2_read i w = (ldr_2 i (ldr_2_reads w), w\<lparr>ldr_2_reads := Suc (ldr_2_reads w)\<rparr>)"

subsection \<open>\<open>adjust\<close>, lines 7 to 41: reading the inputs and reporting them\<close>

text \<open>
  The result is the value of the locals \<open>leftSample\<close>, \<open>rightSample\<close> and \<open>ldr_1Diff\<close> at
  line 41, and the world after lines 7 to 41.
\<close>

definition adjust_read :: "config \<Rightarrow> inputs \<Rightarrow> world \<Rightarrow> real \<times> real \<times> real \<times> world" where
  "adjust_read c i w0 =
    (let runtime = millis i;
         w = print_ulong (runtime div 1000) w0;
         w = print_str ''s '' w;
         w = w\<lparr>leftSwitchActive := \<not> microSwitch_1 i\<rparr>;
         w = digitalWrite LEDB_PIN_VIN (leftSwitchActive w) w;
         w = print_flag (leftSwitchActive w) w;
         w = print_str ''L/'' w;
         w = w\<lparr>rightSwitchActive := \<not> microSwitch_2 i\<rparr>;
         w = digitalWrite LEDY_PIN_VIN (rightSwitchActive w) w;
         w = print_flag (rightSwitchActive w) w;
         w = print_str ''R '' w;
         (r, w) = ldr_1_read i w;
         rightSample = real_of_int r;
         (r, w) = ldr_1_read i w;
         rightSample = double_mul c (real_of_int r) (right_cal c);
         (l, w) = ldr_2_read i w;
         leftSample = real_of_int l;
         (l, w) = ldr_2_read i w;
         leftSample = double_mul c (real_of_int l) (left_cal c);
         ldr_1Diff = double_sub c leftSample rightSample;
         w = print_str ''Left: '' w;
         w = print_double leftSample w;
         w = print_str '' - '' w;
         w = print_str ''Right: '' w;
         w = print_double rightSample w;
         w = print_str '' - '' w;
         w = print_str ''Diff: '' w;
         w = print_double ldr_1Diff w
     in (leftSample, rightSample, ldr_1Diff, w))"

subsection \<open>\<open>adjust\<close>, lines 43 to 90: the decision\<close>

definition adjust_decide :: "config \<Rightarrow> inputs \<Rightarrow> real \<Rightarrow> real \<Rightarrow> real \<Rightarrow> world \<Rightarrow> world" where
  "adjust_decide c i leftSample rightSample ldr_1Diff w0 =
    (if \<bar>ldr_1Diff\<bar> > THRESHOLD_TURN c then
       (let w = print_str '' (turn'' w0;
            w = (if leftSample > rightSample then
                   (let w = print_str '' left'' w;
                        w = digitalWrite (RelayModule4chPins 0) LOW w
                    in if leftSwitchActive w then digitalWrite (RelayModule4chPins 1) LOW w
                       else if isAdjusting i then digitalWrite (RelayModule4chPins 1) HIGH w
                       else w)
                 else w);
            w = (if leftSample < rightSample then
                   (let w = print_str '' right'' w;
                        w = digitalWrite (RelayModule4chPins 1) LOW w
                    in if rightSwitchActive w then digitalWrite (RelayModule4chPins 0) LOW w
                       else if isAdjusting i then digitalWrite (RelayModule4chPins 0) HIGH w
                       else w)
                 else w)
        in if isAdjusting i then println_str '') '' w
           else
             (let w = digitalWrite (RelayModule4chPins 1) LOW w;
                  w = digitalWrite (RelayModule4chPins 0) LOW w
              in println_str '' - sleeping)'' w))
     else
       (let w = digitalWrite (RelayModule4chPins 1) LOW w0;
            w = digitalWrite (RelayModule4chPins 0) LOW w
        in if isAdjusting i then println_str '' nothing to do'' w
           else println_str '' sleeping'' w))"

subsection \<open>\<open>adjust\<close>\<close>

definition adjust :: "config \<Rightarrow> inputs \<Rightarrow> world \<Rightarrow> world" where
  "adjust c i w0 =
    (case adjust_read c i w0 of
       (leftSample, rightSample, ldr_1Diff, w) \<Rightarrow>
         adjust_decide c i leftSample rightSample ldr_1Diff w)"

subsection \<open>What one call leaves behind\<close>

text \<open>
  The locals \<open>leftSample\<close>, \<open>rightSample\<close> and \<open>ldr_1Diff\<close> of a call and the world after line 41; the
  part of the line that lines 7 to 41 print; the part of the serial stream and of the
  write history that the whole call appends.
\<close>

definition leftSample :: "config \<Rightarrow> inputs \<Rightarrow> world \<Rightarrow> real" where
  "leftSample c i w = (case adjust_read c i w of (l, r, d, w') \<Rightarrow> l)"

definition rightSample :: "config \<Rightarrow> inputs \<Rightarrow> world \<Rightarrow> real" where
  "rightSample c i w = (case adjust_read c i w of (l, r, d, w') \<Rightarrow> r)"

definition ldr_1Diff :: "config \<Rightarrow> inputs \<Rightarrow> world \<Rightarrow> real" where
  "ldr_1Diff c i w = (case adjust_read c i w of (l, r, d, w') \<Rightarrow> d)"

definition after_read :: "config \<Rightarrow> inputs \<Rightarrow> world \<Rightarrow> world" where
  "after_read c i w = (case adjust_read c i w of (l, r, d, w') \<Rightarrow> w')"

definition report :: "config \<Rightarrow> inputs \<Rightarrow> world \<Rightarrow> out list" where
  "report c i w = drop (length (serial w)) (serial (after_read c i w))"

definition tick_serial :: "config \<Rightarrow> inputs \<Rightarrow> world \<Rightarrow> out list" where
  "tick_serial c i w = drop (length (serial w)) (serial (adjust c i w))"

definition tick_writes :: "config \<Rightarrow> inputs \<Rightarrow> world \<Rightarrow> (pin \<times> bool) list" where
  "tick_writes c i w = drop (length (writes w)) (writes (adjust c i w))"

text \<open>
  A line of the serial stream ends with a text when the text comes right before the line
  terminator, and contains it when its characters occur in the line one after the other.
\<close>

definition line_ends_with :: "string \<Rightarrow> out list \<Rightarrow> bool" where
  "line_ends_with s line = suffix (map Ch s @ [EOL]) line"

definition line_contains :: "string \<Rightarrow> out list \<Rightarrow> bool" where
  "line_contains s line = sublist (map Ch s) line"

subsection \<open>Runs of calls and the pin states they pass through\<close>

text \<open>
  \<open>run\<close> is the outer loop: it calls \<open>adjust\<close> once per tick, each tick with its own
  inputs. \<open>pin_states p ws\<close> lists the state of the output pins after each of the writes
  \<open>ws\<close>, starting from \<open>p\<close>: these are the intermediate points of a call or of a run.
\<close>

definition run :: "config \<Rightarrow> inputs list \<Rightarrow> world \<Rightarrow> world" where
  "run c is w = fold (adjust c) is w"

definition run_writes :: "config \<Rightarrow> inputs list \<Rightarrow> world \<Rightarrow> (pin \<times> bool) list" where
  "run_writes c is w = drop (length (writes w)) (writes (run c is w))"

fun pin_states :: "(pin \<Rightarrow> bool) \<Rightarrow> (pin \<times> bool) list \<Rightarrow> (pin \<Rightarrow> bool) list" where
  "pin_states p [] = []"
| "pin_states p ((q, v) # ws) = p(q := v) # pin_states (p(q := v)) ws"

definition one_relay :: "(pin \<Rightarrow> bool) \<Rightarrow> bool" where
  "one_relay p = (\<not> (p (RelayModule4chPins 0) \<and> p (RelayModule4chPins 1)))"

subsection \<open>A bench set-up\<close>

text \<open>
  Concrete values on which the theorems below are instantiated: the world at power-up
  with every output low, calibration factors 1 and threshold 2, and a tick in which a
  sensor returns the same sample at every read. The samples used on the bench are small
  integers; their products with 1 and their differences are held exactly by a \<open>double\<close>
  of either width, so the bench's \<open>double_mul\<close> and \<open>double_sub\<close> are the exact ones.
\<close>

definition boot :: world where
  "boot = \<lparr>pins = (\<lambda>p. LOW), writes = [], serial = [], leftSwitchActive = False,
            rightSwitchActive = False, ldr_1_reads = 0, ldr_2_reads = 0\<rparr>"

definition bench_config :: config where
  "bench_config = \<lparr>left_cal = 1, right_cal = 1, THRESHOLD_TURN = 2,
                    double_mul = (\<lambda>x y. x * y), double_sub = (\<lambda>x y. x - y)\<rparr>"

definition bench_inputs :: "int \<Rightarrow> int \<Rightarrow> bool \<Rightarrow> bool \<Rightarrow> bool \<Rightarrow> inputs" where
  "bench_inputs l r s1 s2 adj =
     \<lparr>millis = 5000, microSwitch_1 = s1, microSwitch_2 = s2,
      ldr_1 = (\<lambda>k. r), ldr_2 = (\<lambda>k. l), isAdjusting = adj\<rparr>"

section \<open>Properties\<close>

subsection \<open>The calls, field by field\<close>

lemma digitalWrite_fields:
  "pins (digitalWrite p v w) = (pins w)(p := v)"
  "writes (digitalWrite p v w) = writes w @ [(p, v)]"
  "serial (digitalWrite p v w) = serial w"
  "leftSwitchActive (digitalWrite p v w) = leftSwitchActive w"
  "rightSwitchActive (digitalWrite p v w) = rightSwitchActive w"
  "ldr_1_reads (digitalWrite p v w) = ldr_1_reads w"
  "ldr_2_reads (digitalWrite p v w) = ldr_2_reads w"
  by (simp_all add: digitalWrite_def)

lemma print_str_fields:
  "pins (print_str s w) = pins w"
  "writes (print_str s w) = writes w"
  "serial (print_str s w) = serial w @ map Ch s"
  "leftSwitchActive (print_str s w) = leftSwitchActive w"
  "rightSwitchActive (print_str s w) = rightSwitchActive w"
  "ldr_1_reads (print_str s w) = ldr_1_reads w"
  "ldr_2_reads (print_str s w) = ldr_2_reads w"
  by (simp_all add: print_str_def)

lemma println_str_fields:
  "pins (println_str s w) = pins w"
  "writes (println_str s w) = writes w"
  "serial (println_str s w) = serial w @ map Ch s @ [EOL]"
  "leftSwitchActive (println_str s w) = leftSwitchActive w"
  "rightSwitchActive (println_str s w) = rightSwitchActive w"
  "ldr_1_reads (println_str s w) = ldr_1_reads w"
  "ldr_2_reads (println_str s w) = ldr_2_reads w"
  by (simp_all add: println_str_def)

lemmas call_fields = digitalWrite_fields print_str_fields println_str_fields

lemmas calls = digitalWrite_def print_str_def print_ulong_def print_flag_def print_double_def
  println_str_def ldr_1_read_def ldr_2_read_def

subsection \<open>Lines 7 to 41 in closed form\<close>

lemma adjust_read_eq:
  "adjust_read c i w =
    (double_mul c (real_of_int (ldr_2 i (Suc (ldr_2_reads w)))) (left_cal c),
     double_mul c (real_of_int (ldr_1 i (Suc (ldr_1_reads w)))) (right_cal c),
     double_sub c (double_mul c (real_of_int (ldr_2 i (Suc (ldr_2_reads w)))) (left_cal c))
         (double_mul c (real_of_int (ldr_1 i (Suc (ldr_1_reads w)))) (right_cal c)),
     w\<lparr>pins := (pins w)(LEDB_PIN_VIN := \<not> microSwitch_1 i, LEDY_PIN_VIN := \<not> microSwitch_2 i),
       writes := writes w @ [(LEDB_PIN_VIN, \<not> microSwitch_1 i), (LEDY_PIN_VIN, \<not> microSwitch_2 i)],
       serial := serial w @ ULong (millis i div 1000) # map Ch ''s '' @ Flag (\<not> microSwitch_1 i)
                   # map Ch ''L/'' @ Flag (\<not> microSwitch_2 i) # map Ch ''R ''
                   @ map Ch ''Left: ''
                   @ Double (double_mul c (real_of_int (ldr_2 i (Suc (ldr_2_reads w)))) (left_cal c))
                   # map Ch '' - Right: ''
                   @ Double (double_mul c (real_of_int (ldr_1 i (Suc (ldr_1_reads w)))) (right_cal c))
                   # map Ch '' - Diff: ''
                   @ [Double (double_sub c (double_mul c (real_of_int (ldr_2 i (Suc (ldr_2_reads w)))) (left_cal c))
         (double_mul c (real_of_int (ldr_1 i (Suc (ldr_1_reads w)))) (right_cal c)))],
       leftSwitchActive := \<not> microSwitch_1 i,
       rightSwitchActive := \<not> microSwitch_2 i,
       ldr_1_reads := Suc (Suc (ldr_1_reads w)),
       ldr_2_reads := Suc (Suc (ldr_2_reads w))\<rparr>)"
  by (simp add: adjust_read_def calls Let_def)

subsection \<open>The decision, branch by branch\<close>

text \<open>
  The aligned branch, the turn branch with more light from the left, with more light from
  the right, and the turn branch with equal samples, in which neither direction body runs.
\<close>

lemma decide_gate:
  "\<not> THRESHOLD_TURN c < \<bar>d\<bar> \<Longrightarrow>
   adjust_decide c i l r d w =
     w\<lparr>pins := (pins w)(RelayModule4chPins 1 := LOW, RelayModule4chPins 0 := LOW),
       writes := writes w @ [(RelayModule4chPins 1, LOW), (RelayModule4chPins 0, LOW)],
       serial := serial w @ map Ch (if isAdjusting i then '' nothing to do'' else '' sleeping'') @ [EOL]\<rparr>"
  by (simp add: adjust_decide_def calls Let_def)

lemma decide_left:
  "THRESHOLD_TURN c < \<bar>d\<bar> \<Longrightarrow> r < l \<Longrightarrow>
   adjust_decide c i l r d w =
     w\<lparr>pins := (pins w)(RelayModule4chPins 0 := LOW,
                 RelayModule4chPins 1 := \<not> leftSwitchActive w \<and> isAdjusting i),
       writes := writes w @ (RelayModule4chPins 0, LOW)
                 # (if leftSwitchActive w then [(RelayModule4chPins 1, LOW)]
                    else if isAdjusting i then [(RelayModule4chPins 1, HIGH)] else [])
                 @ (if isAdjusting i then []
                    else [(RelayModule4chPins 1, LOW), (RelayModule4chPins 0, LOW)]),
       serial := serial w @ map Ch '' (turn left''
                 @ map Ch (if isAdjusting i then '') '' else '' - sleeping)'') @ [EOL]\<rparr>"
  by (simp add: adjust_decide_def calls Let_def fun_upd_twist)

lemma decide_right:
  "THRESHOLD_TURN c < \<bar>d\<bar> \<Longrightarrow> l < r \<Longrightarrow>
   adjust_decide c i l r d w =
     w\<lparr>pins := (pins w)(RelayModule4chPins 1 := LOW,
                 RelayModule4chPins 0 := \<not> rightSwitchActive w \<and> isAdjusting i),
       writes := writes w @ (RelayModule4chPins 1, LOW)
                 # (if rightSwitchActive w then [(RelayModule4chPins 0, LOW)]
                    else if isAdjusting i then [(RelayModule4chPins 0, HIGH)] else [])
                 @ (if isAdjusting i then []
                    else [(RelayModule4chPins 1, LOW), (RelayModule4chPins 0, LOW)]),
       serial := serial w @ map Ch '' (turn right''
                 @ map Ch (if isAdjusting i then '') '' else '' - sleeping)'') @ [EOL]\<rparr>"
  by (simp add: adjust_decide_def calls Let_def fun_upd_twist)

lemma decide_neither:
  "THRESHOLD_TURN c < \<bar>d\<bar> \<Longrightarrow> l = r \<Longrightarrow>
   adjust_decide c i l r d w =
     (if isAdjusting i then w\<lparr>serial := serial w @ map Ch '' (turn) '' @ [EOL]\<rparr>
      else w\<lparr>pins := (pins w)(RelayModule4chPins 1 := LOW, RelayModule4chPins 0 := LOW),
             writes := writes w @ [(RelayModule4chPins 1, LOW), (RelayModule4chPins 0, LOW)],
             serial := serial w @ map Ch '' (turn - sleeping)'' @ [EOL]\<rparr>)"
  by (simp add: adjust_decide_def calls Let_def)


subsection \<open>One call\<close>

lemma leftSample_eq:
  "leftSample c i w = double_mul c (real_of_int (ldr_2 i (Suc (ldr_2_reads w)))) (left_cal c)"
  by (simp add: leftSample_def adjust_read_eq)

lemma rightSample_eq:
  "rightSample c i w = double_mul c (real_of_int (ldr_1 i (Suc (ldr_1_reads w)))) (right_cal c)"
  by (simp add: rightSample_def adjust_read_eq)

lemma ldr_1Diff_eq:
  "ldr_1Diff c i w = double_sub c (leftSample c i w) (rightSample c i w)"
  by (simp add: ldr_1Diff_def leftSample_def rightSample_def adjust_read_eq)

lemma after_read_fields:
  "pins (after_read c i w) = (pins w)(LEDB_PIN_VIN := \<not> microSwitch_1 i, LEDY_PIN_VIN := \<not> microSwitch_2 i)"
  "writes (after_read c i w) = writes w @ [(LEDB_PIN_VIN, \<not> microSwitch_1 i), (LEDY_PIN_VIN, \<not> microSwitch_2 i)]"
  "serial (after_read c i w) = serial w @ report c i w"
  "leftSwitchActive (after_read c i w) = (\<not> microSwitch_1 i)"
  "rightSwitchActive (after_read c i w) = (\<not> microSwitch_2 i)"
  "ldr_1_reads (after_read c i w) = Suc (Suc (ldr_1_reads w))"
  "ldr_2_reads (after_read c i w) = Suc (Suc (ldr_2_reads w))"
  by (simp_all add: after_read_def report_def adjust_read_eq)

lemma adjust_eq:
  "adjust c i w =
     adjust_decide c i (leftSample c i w) (rightSample c i w)
       (ldr_1Diff c i w) (after_read c i w)"
  by (simp add: adjust_def leftSample_def rightSample_def ldr_1Diff_def after_read_def adjust_read_eq)

lemma tick_writes_cases:
  "tick_writes c i w =
     [(LEDB_PIN_VIN, \<not> microSwitch_1 i), (LEDY_PIN_VIN, \<not> microSwitch_2 i)] @
     (if \<not> THRESHOLD_TURN c < \<bar>ldr_1Diff c i w\<bar>
      then [(RelayModule4chPins 1, LOW), (RelayModule4chPins 0, LOW)]
      else (if rightSample c i w < leftSample c i w
            then (RelayModule4chPins 0, LOW)
                 # (if \<not> microSwitch_1 i then [(RelayModule4chPins 1, LOW)]
                    else if isAdjusting i then [(RelayModule4chPins 1, HIGH)] else [])
            else if leftSample c i w < rightSample c i w
            then (RelayModule4chPins 1, LOW)
                 # (if \<not> microSwitch_2 i then [(RelayModule4chPins 0, LOW)]
                    else if isAdjusting i then [(RelayModule4chPins 0, HIGH)] else [])
            else [])
           @ (if isAdjusting i then []
              else [(RelayModule4chPins 1, LOW), (RelayModule4chPins 0, LOW)]))"
proof -
  let ?l = "leftSample c i w" and ?r = "rightSample c i w" and ?d = "ldr_1Diff c i w"
  consider (gate) "\<not> THRESHOLD_TURN c < \<bar>?d\<bar>"
    | (left) "THRESHOLD_TURN c < \<bar>?d\<bar>" "?r < ?l"
    | (right) "THRESHOLD_TURN c < \<bar>?d\<bar>" "?l < ?r"
    | (neither) "THRESHOLD_TURN c < \<bar>?d\<bar>" "?l = ?r"
    by linarith
  then show ?thesis
  proof cases
    case gate
    then show ?thesis
      by (simp add: tick_writes_def adjust_eq decide_gate after_read_fields)
  next
    case left
    then show ?thesis
      by (simp add: tick_writes_def adjust_eq decide_left after_read_fields)
  next
    case right
    then show ?thesis
      by (simp add: tick_writes_def adjust_eq decide_right after_read_fields)
  next
    case neither
    then show ?thesis
      by (simp add: tick_writes_def adjust_eq decide_neither [where l = "?r"] after_read_fields)
  qed
qed

lemma adjust_writes: "writes (adjust c i w) = writes w @ tick_writes c i w"
proof -
  have "\<exists>ws. writes (adjust_decide c i l r d v) = writes v @ ws" for l r d v
    by (simp add: adjust_decide_def call_fields Let_def)
  then obtain ws where "writes (adjust c i w) = writes (after_read c i w) @ ws"
    unfolding adjust_eq by blast
  then show ?thesis
    by (simp add: tick_writes_def after_read_fields)
qed

lemma adjust_serial: "serial (adjust c i w) = serial w @ tick_serial c i w"
proof -
  have "\<exists>ws. serial (adjust_decide c i l r d v) = serial v @ ws" for l r d v
    by (simp add: adjust_decide_def call_fields Let_def)
  then obtain ws where "serial (adjust c i w) = serial (after_read c i w) @ ws"
    unfolding adjust_eq by blast
  then show ?thesis
    by (simp add: tick_serial_def after_read_fields)
qed


lemma pin_states_append:
  "pin_states p (xs @ ys) = pin_states p xs @ pin_states (last (p # pin_states p xs)) ys"
  by (induction xs arbitrary: p) auto

lemma adjust_pins: "pins (adjust c i w) = last (pins w # pin_states (pins w) (tick_writes c i w))"
proof -
  let ?l = "leftSample c i w" and ?r = "rightSample c i w" and ?d = "ldr_1Diff c i w"
  consider (gate) "\<not> THRESHOLD_TURN c < \<bar>?d\<bar>"
    | (left) "THRESHOLD_TURN c < \<bar>?d\<bar>" "?r < ?l"
    | (right) "THRESHOLD_TURN c < \<bar>?d\<bar>" "?l < ?r"
    | (neither) "THRESHOLD_TURN c < \<bar>?d\<bar>" "?l = ?r"
    by linarith
  then show ?thesis
  proof cases
    case gate
    then show ?thesis
      by (simp add: tick_writes_cases adjust_eq decide_gate after_read_fields)
  next
    case left
    then show ?thesis
      by (simp add: tick_writes_cases adjust_eq decide_left after_read_fields fun_upd_twist)
  next
    case right
    then show ?thesis
      by (simp add: tick_writes_cases adjust_eq decide_right after_read_fields fun_upd_twist)
  next
    case neither
    then show ?thesis
      by (simp add: tick_writes_cases adjust_eq decide_neither [where l = "?r"] after_read_fields)
  qed
qed


lemma tick_one_relay:
  assumes "one_relay (pins w)"
  shows "\<forall>p \<in> set (pin_states (pins w) (tick_writes c i w)). one_relay p"
proof -
  let ?l = "leftSample c i w" and ?r = "rightSample c i w" and ?d = "ldr_1Diff c i w"
  consider (gate) "\<not> THRESHOLD_TURN c < \<bar>?d\<bar>"
    | (left) "THRESHOLD_TURN c < \<bar>?d\<bar>" "?r < ?l"
    | (right) "THRESHOLD_TURN c < \<bar>?d\<bar>" "?l < ?r"
    | (neither) "THRESHOLD_TURN c < \<bar>?d\<bar>" "?l = ?r"
    by linarith
  then show ?thesis
  proof cases
    case gate
    with assms show ?thesis
      by (simp add: tick_writes_cases one_relay_def)
  next
    case left
    with assms show ?thesis
      by (simp add: tick_writes_cases one_relay_def)
  next
    case right
    with assms show ?thesis
      by (simp add: tick_writes_cases one_relay_def)
  next
    case neither
    with assms show ?thesis
      by (simp add: tick_writes_cases one_relay_def)
  qed
qed

subsection \<open>Runs\<close>

lemma run_Cons: "run c (i # is) w = run c is (adjust c i w)"
  by (simp add: run_def)

lemma run_writes_prefix: "\<exists>ws. writes (run c is w) = writes w @ ws"
proof (induction "is" arbitrary: w)
  case Nil
  show ?case by (simp add: run_def)
next
  case (Cons i "is")
  from Cons [of "adjust c i w"] show ?case
    by (auto simp add: run_Cons adjust_writes)
qed

lemma run_writes_Cons:
  "run_writes c (i # is) w = tick_writes c i w @ run_writes c is (adjust c i w)"
proof -
  obtain ws where "writes (run c is (adjust c i w)) = writes (adjust c i w) @ ws"
    using run_writes_prefix by blast
  then show ?thesis
    by (simp add: run_writes_def run_Cons adjust_writes)
qed

lemma run_one_relay:
  assumes "one_relay (pins w)"
  shows "(\<forall>p \<in> set (pin_states (pins w) (run_writes c is w)). one_relay p)
         \<and> pins (run c is w) = last (pins w # pin_states (pins w) (run_writes c is w))"
  using assms
proof (induction "is" arbitrary: w)
  case Nil
  show ?case by (simp add: run_def run_writes_def)
next
  case (Cons i "is")
  let ?v = "adjust c i w"
  have tick: "\<forall>p \<in> set (pin_states (pins w) (tick_writes c i w)). one_relay p"
    using Cons.prems by (rule tick_one_relay)
  have v: "pins ?v = last (pins w # pin_states (pins w) (tick_writes c i w))"
    by (rule adjust_pins)
  have "one_relay (pins ?v)"
  proof (cases "pin_states (pins w) (tick_writes c i w) = []")
    case True
    with v Cons.prems show ?thesis by simp
  next
    case False
    with v tick show ?thesis by simp
  qed
  from Cons.IH [OF this] v tick show ?case
    by (auto simp add: run_writes_Cons run_Cons pin_states_append)
qed


subsection \<open>The line and the pins of one call\<close>

lemma report_eq:
  "report c i w =
     ULong (millis i div 1000) # map Ch ''s '' @ Flag (\<not> microSwitch_1 i)
       # map Ch ''L/'' @ Flag (\<not> microSwitch_2 i) # map Ch ''R ''
       @ map Ch ''Left: '' @ Double (leftSample c i w)
       # map Ch '' - Right: '' @ Double (rightSample c i w)
       # map Ch '' - Diff: '' @ [Double (ldr_1Diff c i w)]"
  by (simp add: report_def after_read_def leftSample_def rightSample_def ldr_1Diff_def adjust_read_eq)

lemma tick_serial_cases:
  "tick_serial c i w =
     report c i w @
     (if \<not> THRESHOLD_TURN c < \<bar>ldr_1Diff c i w\<bar>
      then map Ch (if isAdjusting i then '' nothing to do'' else '' sleeping'')
      else map Ch '' (turn''
           @ (if rightSample c i w < leftSample c i w then map Ch '' left''
              else if leftSample c i w < rightSample c i w then map Ch '' right''
              else [])
           @ map Ch (if isAdjusting i then '') '' else '' - sleeping)''))
     @ [EOL]"
proof -
  let ?l = "leftSample c i w" and ?r = "rightSample c i w" and ?d = "ldr_1Diff c i w"
  consider (gate) "\<not> THRESHOLD_TURN c < \<bar>?d\<bar>"
    | (left) "THRESHOLD_TURN c < \<bar>?d\<bar>" "?r < ?l"
    | (right) "THRESHOLD_TURN c < \<bar>?d\<bar>" "?l < ?r"
    | (neither) "THRESHOLD_TURN c < \<bar>?d\<bar>" "?l = ?r"
    by linarith
  then show ?thesis
  proof cases
    case gate
    then show ?thesis
      by (simp add: tick_serial_def adjust_eq decide_gate after_read_fields)
  next
    case left
    then show ?thesis
      by (simp add: tick_serial_def adjust_eq decide_left after_read_fields)
  next
    case right
    then show ?thesis
      by (simp add: tick_serial_def adjust_eq decide_right after_read_fields)
  next
    case neither
    then show ?thesis
      by (simp add: tick_serial_def adjust_eq decide_neither [where l = "?r"] after_read_fields)
  qed
qed

lemma decide_other_fields:
  "leftSwitchActive (adjust_decide c i l r d v) = leftSwitchActive v"
  "rightSwitchActive (adjust_decide c i l r d v) = rightSwitchActive v"
  "ldr_1_reads (adjust_decide c i l r d v) = ldr_1_reads v"
  "ldr_2_reads (adjust_decide c i l r d v) = ldr_2_reads v"
  by (simp_all add: adjust_decide_def call_fields Let_def)

lemma adjust_other_fields:
  "leftSwitchActive (adjust c i w) = (\<not> microSwitch_1 i)"
  "rightSwitchActive (adjust c i w) = (\<not> microSwitch_2 i)"
  "ldr_1_reads (adjust c i w) = Suc (Suc (ldr_1_reads w))"
  "ldr_2_reads (adjust c i w) = Suc (Suc (ldr_2_reads w))"
  by (simp_all add: adjust_eq decide_other_fields after_read_fields)

lemma relay_pins_cases:
  "pins (adjust c i w) =
     (if \<not> THRESHOLD_TURN c < \<bar>ldr_1Diff c i w\<bar>
      then (pins w)(LEDB_PIN_VIN := \<not> microSwitch_1 i, LEDY_PIN_VIN := \<not> microSwitch_2 i,
                    RelayModule4chPins 0 := LOW, RelayModule4chPins 1 := LOW)
      else if rightSample c i w < leftSample c i w
      then (pins w)(LEDB_PIN_VIN := \<not> microSwitch_1 i, LEDY_PIN_VIN := \<not> microSwitch_2 i,
                    RelayModule4chPins 0 := LOW,
                    RelayModule4chPins 1 := microSwitch_1 i \<and> isAdjusting i)
      else if leftSample c i w < rightSample c i w
      then (pins w)(LEDB_PIN_VIN := \<not> microSwitch_1 i, LEDY_PIN_VIN := \<not> microSwitch_2 i,
                    RelayModule4chPins 0 := microSwitch_2 i \<and> isAdjusting i,
                    RelayModule4chPins 1 := LOW)
      else if isAdjusting i
      then (pins w)(LEDB_PIN_VIN := \<not> microSwitch_1 i, LEDY_PIN_VIN := \<not> microSwitch_2 i)
      else (pins w)(LEDB_PIN_VIN := \<not> microSwitch_1 i, LEDY_PIN_VIN := \<not> microSwitch_2 i,
                    RelayModule4chPins 0 := LOW, RelayModule4chPins 1 := LOW))"
proof -
  let ?l = "leftSample c i w" and ?r = "rightSample c i w" and ?d = "ldr_1Diff c i w"
  consider (gate) "\<not> THRESHOLD_TURN c < \<bar>?d\<bar>"
    | (left) "THRESHOLD_TURN c < \<bar>?d\<bar>" "?r < ?l"
    | (right) "THRESHOLD_TURN c < \<bar>?d\<bar>" "?l < ?r"
    | (neither) "THRESHOLD_TURN c < \<bar>?d\<bar>" "?l = ?r"
    by linarith
  then show ?thesis
  proof cases
    case gate
    then show ?thesis
      by (simp add: adjust_eq decide_gate after_read_fields fun_upd_twist)
  next
    case left
    then show ?thesis
      by (simp add: adjust_eq decide_left after_read_fields fun_upd_twist)
  next
    case right
    then show ?thesis
      by (simp add: adjust_eq decide_right after_read_fields fun_upd_twist)
  next
    case neither
    then show ?thesis
      by (simp add: adjust_eq decide_neither [where l = "?r"] after_read_fields fun_upd_twist)
  qed
qed


subsection \<open>Relay interlock\<close>

lemma run_writes_Nil: "run_writes c [] w = []"
  by (simp add: run_writes_def run_def)

text \<open>
  Claim C1. Starting from a world in which both relays are off, and for every sequence of
  ticks with whatever inputs, the pin state after every single \<open>digitalWrite\<close> of the run
  (so every intermediate point within every tick) has at most one of the two relay pins
  high, and so has the pin state in which the run ends, which is the last of them. And one
  call, from whatever world, never writes both relays high.
\<close>

theorem relays_never_both_on:
  assumes "\<not> pins w0 (RelayModule4chPins 0)" and "\<not> pins w0 (RelayModule4chPins 1)"
  shows "(\<forall>p \<in> set (pin_states (pins w0) (run_writes c is w0)).
            \<not> (p (RelayModule4chPins 0) \<and> p (RelayModule4chPins 1)))
         \<and> pins (run c is w0) = last (pins w0 # pin_states (pins w0) (run_writes c is w0))
         \<and> \<not> (pins (run c is w0) (RelayModule4chPins 0) \<and> pins (run c is w0) (RelayModule4chPins 1))
         \<and> \<not> ((RelayModule4chPins 0, HIGH) \<in> set (tick_writes c i w)
                \<and> (RelayModule4chPins 1, HIGH) \<in> set (tick_writes c i w))"
proof -
  have tick: "\<not> ((RelayModule4chPins 0, HIGH) \<in> set (tick_writes c i w)
                \<and> (RelayModule4chPins 1, HIGH) \<in> set (tick_writes c i w))"
    by (simp add: tick_writes_cases)
  from assms have start: "one_relay (pins w0)"
    by (simp add: one_relay_def)
  note inv = run_one_relay [OF start, of c "is"]
  from inv have states: "\<forall>p \<in> set (pin_states (pins w0) (run_writes c is w0)). one_relay p"
    and final: "pins (run c is w0) = last (pins w0 # pin_states (pins w0) (run_writes c is w0))"
    by simp_all
  have "one_relay (pins (run c is w0))"
  proof (cases "pin_states (pins w0) (run_writes c is w0) = []")
    case True
    with final start show ?thesis by simp
  next
    case False
    with final states show ?thesis by simp
  qed
  with states final tick show ?thesis
    by (simp add: one_relay_def)
qed

text \<open>
  The theorem of claim C1 at the bench: from power-up, a tick that turns left and then a
  tick that turns right, eight writes in all.
\<close>

theorem relays_never_both_on_witness:
  "\<not> pins boot (RelayModule4chPins 0) \<and> \<not> pins boot (RelayModule4chPins 1)
   \<and> list_all (\<lambda>p. \<not> (p (RelayModule4chPins 0) \<and> p (RelayModule4chPins 1)))
        (pin_states (pins boot)
          (run_writes bench_config [bench_inputs 5 1 True True True, bench_inputs 1 5 True True True] boot))
   \<and> length (pin_states (pins boot)
          (run_writes bench_config [bench_inputs 5 1 True True True, bench_inputs 1 5 True True True] boot)) = 8
   \<and> \<not> (pins (run bench_config [bench_inputs 5 1 True True True, bench_inputs 1 5 True True True] boot)
            (RelayModule4chPins 0)
          \<and> pins (run bench_config [bench_inputs 5 1 True True True, bench_inputs 1 5 True True True] boot)
            (RelayModule4chPins 1))"
proof -
  let ?ticks = "[bench_inputs 5 1 True True True, bench_inputs 1 5 True True True]"
  have off: "\<not> pins boot (RelayModule4chPins 0)" "\<not> pins boot (RelayModule4chPins 1)"
    by (simp_all add: boot_def)
  have "run_writes bench_config ?ticks boot
      = [(LEDB_PIN_VIN, LOW), (LEDY_PIN_VIN, LOW), (RelayModule4chPins 0, LOW), (RelayModule4chPins 1, HIGH),
         (LEDB_PIN_VIN, LOW), (LEDY_PIN_VIN, LOW), (RelayModule4chPins 1, LOW), (RelayModule4chPins 0, HIGH)]"
    by (simp add: run_writes_Cons run_writes_Nil tick_writes_cases leftSample_eq rightSample_eq ldr_1Diff_eq
        adjust_other_fields bench_config_def bench_inputs_def)
  then have len: "length (pin_states (pins boot) (run_writes bench_config ?ticks boot)) = 8"
    by simp
  note inv = relays_never_both_on [OF off, of bench_config ?ticks]
  from inv have "list_all (\<lambda>p. \<not> (p (RelayModule4chPins 0) \<and> p (RelayModule4chPins 1)))
        (pin_states (pins boot) (run_writes bench_config ?ticks boot))"
    unfolding list_all_iff by (rule conjunct1)
  with off len inv show ?thesis by blast
qed

subsection \<open>The aligned panel\<close>

text \<open>
  Claim C2. When the magnitude of the difference of the two samples (\<open>ldr_1Diff\<close>, the
  difference as the target's \<open>double\<close> computes it at line 30) is at most
  \<open>THRESHOLD_TURN\<close>, whatever \<open>isAdjusting\<close> is: after lines 7 to 41 the call does nothing
  but write both relays low and print the end of the line, which is \<open>nothing to do\<close> when
  \<open>isAdjusting\<close> holds and \<open>sleeping\<close> otherwise; both relay pins are low when it returns.
\<close>

theorem aligned_both_off:
  assumes "\<bar>ldr_1Diff c i w\<bar> \<le> THRESHOLD_TURN c"
  shows "adjust c i w =
           println_str (if isAdjusting i then '' nothing to do'' else '' sleeping'')
             (digitalWrite (RelayModule4chPins 0) LOW
               (digitalWrite (RelayModule4chPins 1) LOW (after_read c i w)))
         \<and> \<not> pins (adjust c i w) (RelayModule4chPins 0)
         \<and> \<not> pins (adjust c i w) (RelayModule4chPins 1)
         \<and> tick_writes c i w =
             [(LEDB_PIN_VIN, \<not> microSwitch_1 i), (LEDY_PIN_VIN, \<not> microSwitch_2 i),
              (RelayModule4chPins 1, LOW), (RelayModule4chPins 0, LOW)]
         \<and> tick_serial c i w =
             report c i w @ map Ch (if isAdjusting i then '' nothing to do'' else '' sleeping'') @ [EOL]"
proof -
  from assms have gate: "\<not> THRESHOLD_TURN c < \<bar>ldr_1Diff c i w\<bar>"
    by simp
  have "adjust c i w =
           println_str (if isAdjusting i then '' nothing to do'' else '' sleeping'')
             (digitalWrite (RelayModule4chPins 0) LOW
               (digitalWrite (RelayModule4chPins 1) LOW (after_read c i w)))"
    using gate by (simp add: adjust_eq adjust_decide_def Let_def)
  moreover have "\<not> pins (adjust c i w) (RelayModule4chPins 0)"
    and "\<not> pins (adjust c i w) (RelayModule4chPins 1)"
    using gate by (simp_all add: relay_pins_cases)
  moreover have "tick_writes c i w =
             [(LEDB_PIN_VIN, \<not> microSwitch_1 i), (LEDY_PIN_VIN, \<not> microSwitch_2 i),
              (RelayModule4chPins 1, LOW), (RelayModule4chPins 0, LOW)]"
    using gate by (simp add: tick_writes_cases)
  moreover have "tick_serial c i w =
             report c i w @ map Ch (if isAdjusting i then '' nothing to do'' else '' sleeping'') @ [EOL]"
    using gate by (simp add: tick_serial_cases)
  ultimately show ?thesis by blast
qed

text \<open>
  The theorem of claim C2 at the bench, both samples 3 and the threshold 2.
\<close>

theorem aligned_both_off_witness:
  "\<bar>ldr_1Diff bench_config (bench_inputs 3 3 True True True) boot\<bar> \<le> THRESHOLD_TURN bench_config
   \<and> \<not> pins (adjust bench_config (bench_inputs 3 3 True True True) boot) (RelayModule4chPins 0)
   \<and> \<not> pins (adjust bench_config (bench_inputs 3 3 True True True) boot) (RelayModule4chPins 1)
   \<and> tick_serial bench_config (bench_inputs 3 3 True True True) boot =
        report bench_config (bench_inputs 3 3 True True True) boot @ map Ch '' nothing to do'' @ [EOL]"
proof -
  have h: "\<bar>ldr_1Diff bench_config (bench_inputs 3 3 True True True) boot\<bar> \<le> THRESHOLD_TURN bench_config"
    by (simp add: leftSample_eq rightSample_eq ldr_1Diff_eq bench_config_def bench_inputs_def)
  have adj: "isAdjusting (bench_inputs 3 3 True True True)"
    by (simp add: bench_inputs_def)
  note t = aligned_both_off [OF h]
  have "tick_serial bench_config (bench_inputs 3 3 True True True) boot =
        report bench_config (bench_inputs 3 3 True True True) boot @ map Ch '' nothing to do'' @ [EOL]"
    using t [THEN conjunct2, THEN conjunct2, THEN conjunct2, THEN conjunct2] adj
    by (simp only: if_True)
  with h t show ?thesis by blast
qed

subsection \<open>The paused controller\<close>

lemma line_ends_with_append:
  "line_ends_with s (xs @ map Ch s @ [EOL])"
  unfolding line_ends_with_def by (rule suffix_appendI) simp

text \<open>
  Claim C3, as stated, asks that with \<open>isAdjusting\<close> false the log line ends with
  \<open>sleeping\<close>. It does not when the turn branch is taken: with samples 1 and 5 and the
  threshold 2 the line ends with \<open> - sleeping)\<close>, the closing bracket of \<open>(turn right\<close>.
\<close>

theorem sleeping_line_end_counterexample:
  "\<not> isAdjusting (bench_inputs 1 5 True True False)
   \<and> \<not> line_ends_with ''sleeping''
        (tick_serial bench_config (bench_inputs 1 5 True True False) boot)"
  by (simp add: line_ends_with_def suffix_to_prefix tick_serial_cases report_eq
      leftSample_eq rightSample_eq ldr_1Diff_eq bench_config_def bench_inputs_def)

text \<open>
  Claim C3, amended. With \<open>isAdjusting\<close> false, for all samples and switch states, both
  relay pins are low when \<open>adjust\<close> returns; the log line contains \<open>sleeping\<close>, and it ends
  with \<open> - sleeping)\<close> when the turn branch is taken (the magnitude of \<open>ldr_1Diff\<close>, the
  difference as the target computes it, exceeds the threshold) and with \<open> sleeping\<close>
  otherwise.
\<close>

theorem sleeping_relays_off:
  assumes "\<not> isAdjusting i"
  shows "\<not> pins (adjust c i w) (RelayModule4chPins 0)
         \<and> \<not> pins (adjust c i w) (RelayModule4chPins 1)
         \<and> (if THRESHOLD_TURN c < \<bar>ldr_1Diff c i w\<bar>
            then line_ends_with '' - sleeping)'' (tick_serial c i w)
            else line_ends_with '' sleeping'' (tick_serial c i w))
         \<and> line_contains ''sleeping'' (tick_serial c i w)"
proof -
  from assms have "\<not> pins (adjust c i w) (RelayModule4chPins 0)"
    and "\<not> pins (adjust c i w) (RelayModule4chPins 1)"
    by (simp_all add: relay_pins_cases)
  moreover
  let ?turn = "THRESHOLD_TURN c < \<bar>ldr_1Diff c i w\<bar>"
  let ?dir = "if rightSample c i w < leftSample c i w then map Ch '' left''
              else if leftSample c i w < rightSample c i w then map Ch '' right'' else []"
  have turn: "tick_serial c i w =
      (report c i w @ map Ch '' (turn'' @ ?dir) @ map Ch '' - sleeping)'' @ [EOL]" if ?turn
    using that assms by (simp add: tick_serial_cases)
  have gate: "tick_serial c i w = report c i w @ map Ch '' sleeping'' @ [EOL]" if "\<not> ?turn"
    using that assms by (simp add: tick_serial_cases)
  have "if ?turn then line_ends_with '' - sleeping)'' (tick_serial c i w)
        else line_ends_with '' sleeping'' (tick_serial c i w)"
  proof (cases ?turn)
    case True
    have "line_ends_with '' - sleeping)'' (tick_serial c i w)"
      unfolding turn [OF True] by (rule line_ends_with_append)
    with True show ?thesis by (simp only: if_True)
  next
    case False
    have "line_ends_with '' sleeping'' (tick_serial c i w)"
      unfolding gate [OF False] by (rule line_ends_with_append)
    with False show ?thesis by (simp only: if_False)
  qed
  moreover
  have "\<exists>ps ss. tick_serial c i w = ps @ map Ch ''sleeping'' @ ss"
  proof (cases ?turn)
    case True
    have "tick_serial c i w =
        (report c i w @ map Ch '' (turn'' @ ?dir @ map Ch '' - '') @ map Ch ''sleeping'' @ (map Ch '')'' @ [EOL])"
      unfolding turn [OF True] by simp
    then show ?thesis by blast
  next
    case False
    have "tick_serial c i w = (report c i w @ map Ch '' '') @ map Ch ''sleeping'' @ [EOL]"
      unfolding gate [OF False] by simp
    then show ?thesis by blast
  qed
  then have "line_contains ''sleeping'' (tick_serial c i w)"
    by (simp only: line_contains_def sublist_def)
  ultimately show ?thesis by blast
qed

text \<open>
  The amended theorem of claim C3 at the input of the counterexample.
\<close>

theorem sleeping_relays_off_witness:
  "\<not> isAdjusting (bench_inputs 1 5 True True False)
   \<and> \<not> pins (adjust bench_config (bench_inputs 1 5 True True False) boot) (RelayModule4chPins 0)
   \<and> \<not> pins (adjust bench_config (bench_inputs 1 5 True True False) boot) (RelayModule4chPins 1)
   \<and> line_ends_with '' - sleeping)'' (tick_serial bench_config (bench_inputs 1 5 True True False) boot)
   \<and> line_contains ''sleeping'' (tick_serial bench_config (bench_inputs 1 5 True True False) boot)"
proof -
  have h: "\<not> isAdjusting (bench_inputs 1 5 True True False)"
    by (simp add: bench_inputs_def)
  have turn: "THRESHOLD_TURN bench_config
      < \<bar>ldr_1Diff bench_config (bench_inputs 1 5 True True False) boot\<bar>"
    by (simp add: leftSample_eq rightSample_eq ldr_1Diff_eq bench_config_def bench_inputs_def)
  note t = sleeping_relays_off [OF h, of bench_config boot]
  have "line_ends_with '' - sleeping)'' (tick_serial bench_config (bench_inputs 1 5 True True False) boot)"
    using t [THEN conjunct2, THEN conjunct2, THEN conjunct1] turn by (simp only: if_True)
  with h t show ?thesis by blast
qed

subsection \<open>The left limit switch\<close>

text \<open>
  Claim C4. When the left limit switch reads active (the flag \<open>leftSwitchActive\<close> is
  set by line 11) and the left sample is greater than the right one, then whatever
  \<open>isAdjusting\<close> is, the call never writes the right relay high, it writes it low, and
  both relay pins are low when it returns.
\<close>

theorem left_limit_stops:
  assumes "leftSwitchActive (after_read c i w)"
    and "leftSample c i w > rightSample c i w"
  shows "\<not> pins (adjust c i w) (RelayModule4chPins 1)
         \<and> \<not> pins (adjust c i w) (RelayModule4chPins 0)
         \<and> (RelayModule4chPins 1, HIGH) \<notin> set (tick_writes c i w)
         \<and> (RelayModule4chPins 1, LOW) \<in> set (tick_writes c i w)"
proof -
  from assms(1) have sw: "\<not> microSwitch_1 i"
    by (simp add: after_read_fields)
  from sw assms(2) have "\<not> pins (adjust c i w) (RelayModule4chPins 1)"
    and "\<not> pins (adjust c i w) (RelayModule4chPins 0)"
    by (simp_all add: relay_pins_cases)
  moreover from sw assms(2) have "(RelayModule4chPins 1, HIGH) \<notin> set (tick_writes c i w)"
    and "(RelayModule4chPins 1, LOW) \<in> set (tick_writes c i w)"
    by (simp_all add: tick_writes_cases)
  ultimately show ?thesis by blast
qed

text \<open>
  The theorem of claim C4 at the bench: samples 5 and 1, the left switch input low.
\<close>

theorem left_limit_stops_witness:
  "leftSwitchActive (after_read bench_config (bench_inputs 5 1 False True True) boot)
   \<and> leftSample bench_config (bench_inputs 5 1 False True True) boot
       > rightSample bench_config (bench_inputs 5 1 False True True) boot
   \<and> \<not> pins (adjust bench_config (bench_inputs 5 1 False True True) boot) (RelayModule4chPins 1)
   \<and> \<not> pins (adjust bench_config (bench_inputs 5 1 False True True) boot) (RelayModule4chPins 0)
   \<and> tick_writes bench_config (bench_inputs 5 1 False True True) boot =
        [(LEDB_PIN_VIN, HIGH), (LEDY_PIN_VIN, LOW), (RelayModule4chPins 0, LOW), (RelayModule4chPins 1, LOW)]"
proof -
  have h1: "leftSwitchActive (after_read bench_config (bench_inputs 5 1 False True True) boot)"
    by (simp add: after_read_fields bench_inputs_def)
  have h2: "leftSample bench_config (bench_inputs 5 1 False True True) boot
       > rightSample bench_config (bench_inputs 5 1 False True True) boot"
    by (simp add: leftSample_eq rightSample_eq ldr_1Diff_eq bench_config_def bench_inputs_def)
  have ws: "tick_writes bench_config (bench_inputs 5 1 False True True) boot =
        [(LEDB_PIN_VIN, HIGH), (LEDY_PIN_VIN, LOW), (RelayModule4chPins 0, LOW), (RelayModule4chPins 1, LOW)]"
    by (simp add: tick_writes_cases leftSample_eq rightSample_eq ldr_1Diff_eq bench_config_def bench_inputs_def)
  from h1 h2 ws left_limit_stops [OF h1 h2] show ?thesis by blast
qed

subsection \<open>Scenario 1: turning left\<close>

text \<open>
  Claim C5. With the left sample 5, the right sample 1, the threshold 2, the left limit
  switch inactive and \<open>isAdjusting\<close> true, the right relay pin is high and the left relay
  pin is low when \<open>adjust\<close> returns, and the log line contains \<open>turn left\<close>. The scenario's
  difference is the one a \<open>double\<close> gives: 5 - 1 is 4, with no rounding.
\<close>

theorem scenario_turn_left:
  assumes "leftSample c i w = 5" and "rightSample c i w = 1" and "THRESHOLD_TURN c = 2"
    and "\<not> leftSwitchActive (after_read c i w)" and "isAdjusting i"
    and "double_sub c 5 1 = 4"
  shows "pins (adjust c i w) (RelayModule4chPins 1)
         \<and> \<not> pins (adjust c i w) (RelayModule4chPins 0)
         \<and> line_contains ''turn left'' (tick_serial c i w)"
proof -
  from assms(4) have sw: "microSwitch_1 i"
    by (simp add: after_read_fields)
  from assms(1,2,6) have d: "ldr_1Diff c i w = 4"
    by (simp add: ldr_1Diff_eq)
  from assms(1-3) d sw assms(5) have "pins (adjust c i w) (RelayModule4chPins 1)"
    and "\<not> pins (adjust c i w) (RelayModule4chPins 0)"
    by (simp_all add: relay_pins_cases)
  moreover have "tick_serial c i w = (report c i w @ map Ch '' ('') @ map Ch ''turn left'' @ (map Ch '') '' @ [EOL])"
    using assms(1-3) d assms(5) by (simp add: tick_serial_cases)
  then have "line_contains ''turn left'' (tick_serial c i w)"
    unfolding line_contains_def sublist_def by blast
  ultimately show ?thesis by blast
qed

text \<open>
  The theorem of claim C5 at the bench, where its hypotheses hold.
\<close>

theorem scenario_turn_left_witness:
  "leftSample bench_config (bench_inputs 5 1 True True True) boot = 5
   \<and> rightSample bench_config (bench_inputs 5 1 True True True) boot = 1
   \<and> THRESHOLD_TURN bench_config = 2
   \<and> \<not> leftSwitchActive (after_read bench_config (bench_inputs 5 1 True True True) boot)
   \<and> isAdjusting (bench_inputs 5 1 True True True)
   \<and> double_sub bench_config 5 1 = 4
   \<and> pins (adjust bench_config (bench_inputs 5 1 True True True) boot) (RelayModule4chPins 1)
   \<and> \<not> pins (adjust bench_config (bench_inputs 5 1 True True True) boot) (RelayModule4chPins 0)
   \<and> line_contains ''turn left'' (tick_serial bench_config (bench_inputs 5 1 True True True) boot)"
proof -
  have h: "leftSample bench_config (bench_inputs 5 1 True True True) boot = 5"
    "rightSample bench_config (bench_inputs 5 1 True True True) boot = 1"
    "THRESHOLD_TURN bench_config = 2"
    "\<not> leftSwitchActive (after_read bench_config (bench_inputs 5 1 True True True) boot)"
    "isAdjusting (bench_inputs 5 1 True True True)"
    "double_sub bench_config 5 1 = 4"
    by (simp_all add: leftSample_eq rightSample_eq ldr_1Diff_eq after_read_fields bench_config_def bench_inputs_def)
  from h scenario_turn_left [OF h] show ?thesis by blast
qed

subsection \<open>Two ticks on the same inputs\<close>

text \<open>
  Claim C6. A second call of \<open>adjust\<close> right after a first one, with the same samples,
  the same switch readings and the same \<open>isAdjusting\<close>, issues the same sequence of
  \<open>digitalWrite\<close> calls as the first and leaves every output pin as the first left it.
\<close>

theorem repeated_tick_same_commands:
  assumes "leftSample c j (adjust c i w) = leftSample c i w"
    and "rightSample c j (adjust c i w) = rightSample c i w"
    and "microSwitch_1 j = microSwitch_1 i"
    and "microSwitch_2 j = microSwitch_2 i"
    and "isAdjusting j = isAdjusting i"
  shows "tick_writes c j (adjust c i w) = tick_writes c i w
         \<and> pins (adjust c j (adjust c i w)) = pins (adjust c i w)"
proof -
  have d: "ldr_1Diff c j (adjust c i w) = ldr_1Diff c i w"
    by (simp add: ldr_1Diff_eq assms)
  have "tick_writes c j (adjust c i w) = tick_writes c i w"
    by (simp add: tick_writes_cases [of c j] assms d) (simp add: tick_writes_cases)
  moreover have "pins (adjust c j (adjust c i w)) = pins (adjust c i w)"
    by (simp add: relay_pins_cases [of c j] assms d) (auto simp add: relay_pins_cases)
  ultimately show ?thesis by blast
qed

text \<open>
  The theorem of claim C6 at the bench: two ticks with samples 5 and 1.
\<close>

theorem repeated_tick_same_commands_witness:
  "leftSample bench_config (bench_inputs 5 1 True True True)
       (adjust bench_config (bench_inputs 5 1 True True True) boot)
     = leftSample bench_config (bench_inputs 5 1 True True True) boot
   \<and> rightSample bench_config (bench_inputs 5 1 True True True)
       (adjust bench_config (bench_inputs 5 1 True True True) boot)
     = rightSample bench_config (bench_inputs 5 1 True True True) boot
   \<and> tick_writes bench_config (bench_inputs 5 1 True True True)
       (adjust bench_config (bench_inputs 5 1 True True True) boot)
     = tick_writes bench_config (bench_inputs 5 1 True True True) boot
   \<and> pins (adjust bench_config (bench_inputs 5 1 True True True)
       (adjust bench_config (bench_inputs 5 1 True True True) boot))
     = pins (adjust bench_config (bench_inputs 5 1 True True True) boot)
   \<and> tick_writes bench_config (bench_inputs 5 1 True True True) boot =
       [(LEDB_PIN_VIN, LOW), (LEDY_PIN_VIN, LOW), (RelayModule4chPins 0, LOW), (RelayModule4chPins 1, HIGH)]"
proof -
  let ?i = "bench_inputs 5 1 True True True"
  have h: "leftSample bench_config ?i (adjust bench_config ?i boot) = leftSample bench_config ?i boot"
    "rightSample bench_config ?i (adjust bench_config ?i boot) = rightSample bench_config ?i boot"
    by (simp_all add: leftSample_eq rightSample_eq bench_inputs_def)
  have ws: "tick_writes bench_config ?i boot =
       [(LEDB_PIN_VIN, LOW), (LEDY_PIN_VIN, LOW), (RelayModule4chPins 0, LOW), (RelayModule4chPins 1, HIGH)]"
    by (simp add: tick_writes_cases leftSample_eq rightSample_eq ldr_1Diff_eq bench_config_def bench_inputs_def)
  from h ws repeated_tick_same_commands [OF h refl refl refl] show ?thesis by blast
qed

subsection \<open>The runtime\<close>

text \<open>
  Claim C7. Replacing the value of \<open>millis()\<close> by any other leaves the output pins, the
  writes, the switch flags and the read counters of the call as they are; in the serial
  stream only the first item of the line, the seconds, changes.
\<close>

theorem runtime_only_in_log:
  "pins (adjust c (i\<lparr>millis := m\<rparr>) w) = pins (adjust c i w)
   \<and> writes (adjust c (i\<lparr>millis := m\<rparr>) w) = writes (adjust c i w)
   \<and> leftSwitchActive (adjust c (i\<lparr>millis := m\<rparr>) w) = leftSwitchActive (adjust c i w)
   \<and> rightSwitchActive (adjust c (i\<lparr>millis := m\<rparr>) w) = rightSwitchActive (adjust c i w)
   \<and> ldr_1_reads (adjust c (i\<lparr>millis := m\<rparr>) w) = ldr_1_reads (adjust c i w)
   \<and> ldr_2_reads (adjust c (i\<lparr>millis := m\<rparr>) w) = ldr_2_reads (adjust c i w)
   \<and> serial (adjust c (i\<lparr>millis := m\<rparr>) w) = serial w @ ULong (m div 1000) # tl (tick_serial c i w)"
proof -
  let ?j = "i\<lparr>millis := m\<rparr>"
  have l: "leftSample c ?j w = leftSample c i w" and r: "rightSample c ?j w = rightSample c i w"
    by (simp_all add: leftSample_eq rightSample_eq)
  then have d: "ldr_1Diff c ?j w = ldr_1Diff c i w"
    by (simp add: ldr_1Diff_eq)
  have "pins (adjust c ?j w) = pins (adjust c i w)"
    by (simp add: relay_pins_cases l r d)
  moreover have "writes (adjust c ?j w) = writes (adjust c i w)"
    by (simp add: adjust_writes tick_writes_cases l r d)
  moreover have "serial (adjust c ?j w) = serial w @ ULong (m div 1000) # tl (tick_serial c i w)"
    by (simp add: adjust_serial tick_serial_cases report_eq l r d)
  ultimately show ?thesis
    by (simp add: adjust_other_fields)
qed

subsection \<open>The log line\<close>

text \<open>
  Claim C8. Every call appends to the serial stream a piece that holds exactly one line
  terminator, which is its last item.
\<close>

theorem one_line_per_tick:
  "serial (adjust c i w) = serial w @ tick_serial c i w
   \<and> count_list (tick_serial c i w) EOL = 1
   \<and> last (tick_serial c i w) = EOL"
proof -
  have "count_list (report c i w) EOL = 0"
    by (simp add: report_eq)
  then have "count_list (tick_serial c i w) EOL = 1"
    by (simp add: tick_serial_cases)
  moreover have "last (tick_serial c i w) = EOL"
    by (simp add: tick_serial_cases)
  ultimately show ?thesis
    by (simp add: adjust_serial)
qed

subsection \<open>The two reads of a sensor\<close>

text \<open>
  Claim C9. A call reads each light sensor exactly twice. The left sample is the second
  read of \<open>ldr_2\<close> times \<open>left_cal\<close>, the right sample the second read of \<open>ldr_1\<close> times
  \<open>right_cal\<close> (the products as the target's \<open>double\<close> computes them), and the decision runs
  on these two and on their difference. The first read of either sensor is
  discarded: whatever values \<open>a\<close> and \<open>b\<close> the two first reads return, the world after the
  call (pins, writes, serial stream) is the same.
\<close>

theorem second_read_is_the_sample:
  "ldr_1_reads (adjust c i w) = ldr_1_reads w + 2
   \<and> ldr_2_reads (adjust c i w) = ldr_2_reads w + 2
   \<and> leftSample c i w = double_mul c (real_of_int (ldr_2 i (ldr_2_reads w + 1))) (left_cal c)
   \<and> rightSample c i w = double_mul c (real_of_int (ldr_1 i (ldr_1_reads w + 1))) (right_cal c)
   \<and> adjust c i w =
       adjust_decide c i (leftSample c i w) (rightSample c i w)
         (double_sub c (leftSample c i w) (rightSample c i w)) (after_read c i w)
   \<and> adjust c (i\<lparr>ldr_1 := (ldr_1 i)(ldr_1_reads w := a),
                  ldr_2 := (ldr_2 i)(ldr_2_reads w := b)\<rparr>) w = adjust c i w"
proof -
  let ?j = "i\<lparr>ldr_1 := (ldr_1 i)(ldr_1_reads w := a), ldr_2 := (ldr_2 i)(ldr_2_reads w := b)\<rparr>"
  have "adjust_read c ?j w = adjust_read c i w"
    by (simp add: adjust_read_eq)
  moreover have flag: "isAdjusting ?j = isAdjusting i"
    by simp
  have "adjust_decide c ?j l r d v = adjust_decide c i l r d v" for l r d v
    unfolding adjust_decide_def flag by (rule refl)
  ultimately have "adjust c ?j w = adjust c i w"
    by (simp add: adjust_def)
  moreover have "ldr_1_reads (adjust c i w) = ldr_1_reads w + 2"
    and "ldr_2_reads (adjust c i w) = ldr_2_reads w + 2"
    by (simp_all add: adjust_other_fields)
  moreover have "leftSample c i w = double_mul c (real_of_int (ldr_2 i (ldr_2_reads w + 1))) (left_cal c)"
    and "rightSample c i w = double_mul c (real_of_int (ldr_1 i (ldr_1_reads w + 1))) (right_cal c)"
    by (simp_all add: leftSample_eq rightSample_eq)
  moreover note adjust_eq [of c i w, unfolded ldr_1Diff_eq]
  ultimately show ?thesis by blast
qed

subsection \<open>The turn branch\<close>

text \<open>
  Claim C10. With \<open>THRESHOLD_TURN\<close> at least 0, a call that enters the turn branch (the
  magnitude of \<open>ldr_1Diff\<close>, the difference as the target computes it, exceeds the
  threshold) has unequal samples, so exactly one of the two tests \<open>leftSample > rightSample\<close>
  and \<open>leftSample < rightSample\<close> holds and exactly one direction body runs: the line reads
  \<open>(turn left\<close> or \<open>(turn right\<close>, never \<open>(turn\<close> alone. What is used of the target's
  subtraction is that a \<open>double\<close> minus itself is 0, whatever it rounds elsewhere.
\<close>

theorem turn_branch_takes_one_direction:
  assumes "0 \<le> THRESHOLD_TURN c"
    and "THRESHOLD_TURN c < \<bar>ldr_1Diff c i w\<bar>"
    and "\<And>x. double_sub c x x = 0"
  shows "leftSample c i w \<noteq> rightSample c i w
         \<and> (rightSample c i w < leftSample c i w) \<noteq> (leftSample c i w < rightSample c i w)
         \<and> tick_serial c i w =
             report c i w
             @ map Ch (if rightSample c i w < leftSample c i w then '' (turn left'' else '' (turn right'')
             @ map Ch (if isAdjusting i then '') '' else '' - sleeping)'') @ [EOL]"
proof -
  have ne: "leftSample c i w \<noteq> rightSample c i w"
  proof
    assume "leftSample c i w = rightSample c i w"
    then have "ldr_1Diff c i w = 0"
      by (simp add: ldr_1Diff_eq assms(3))
    with assms(1,2) show False by simp
  qed
  then have one: "(rightSample c i w < leftSample c i w) \<noteq> (leftSample c i w < rightSample c i w)"
    by auto
  from assms(2) ne have "tick_serial c i w =
             report c i w
             @ map Ch (if rightSample c i w < leftSample c i w then '' (turn left'' else '' (turn right'')
             @ map Ch (if isAdjusting i then '') '' else '' - sleeping)'') @ [EOL]"
    by (simp add: tick_serial_cases)
  with ne one show ?thesis by blast
qed

text \<open>
  The theorem of claim C10 at the bench: samples 1 and 5, the threshold 2.
\<close>

theorem turn_branch_takes_one_direction_witness:
  "0 \<le> THRESHOLD_TURN bench_config
   \<and> (\<forall>x. double_sub bench_config x x = 0)
   \<and> THRESHOLD_TURN bench_config
       < \<bar>ldr_1Diff bench_config (bench_inputs 1 5 True True True) boot\<bar>
   \<and> leftSample bench_config (bench_inputs 1 5 True True True) boot
       \<noteq> rightSample bench_config (bench_inputs 1 5 True True True) boot
   \<and> tick_serial bench_config (bench_inputs 1 5 True True True) boot =
       report bench_config (bench_inputs 1 5 True True True) boot
       @ map Ch '' (turn right'' @ map Ch '') '' @ [EOL]"
proof -
  let ?i = "bench_inputs 1 5 True True True"
  have h: "0 \<le> THRESHOLD_TURN bench_config"
    "THRESHOLD_TURN bench_config
       < \<bar>ldr_1Diff bench_config ?i boot\<bar>"
    by (simp_all add: leftSample_eq rightSample_eq ldr_1Diff_eq bench_config_def bench_inputs_def)
  have dir: "\<not> rightSample bench_config ?i boot < leftSample bench_config ?i boot"
    and adj: "isAdjusting ?i"
    by (simp_all add: leftSample_eq rightSample_eq ldr_1Diff_eq bench_config_def bench_inputs_def)
  have z: "double_sub bench_config x x = 0" for x
    by (simp add: bench_config_def)
  note t = turn_branch_takes_one_direction [OF h z]
  have "tick_serial bench_config ?i boot =
       report bench_config ?i boot @ map Ch '' (turn right'' @ map Ch '') '' @ [EOL]"
    using t [THEN conjunct2, THEN conjunct2] dir adj by (simp only: if_True if_False)
  with h z t show ?thesis by blast
qed

end
